theory Spec2Isabelle
  imports Main "HOL-Library.Signed_Division"
begin

section \<open>Machine integers of the Go source\<close>

text \<open>
  The source is compiled for 64-bit targets: \<open>int\<close> is a 64-bit two's complement integer and
  \<open>int32\<close> a 32-bit one.  Values are kept as \<open>int\<close>; the wrap-around of an addition and the
  truncation of a conversion are written out.
\<close>

definition go_int :: "int \<Rightarrow> int" where
  "go_int x = (x + 2 ^ 63) mod 2 ^ 64 - 2 ^ 63"

definition go_int32 :: "int \<Rightarrow> int" where
  "go_int32 x = (x + 2 ^ 31) mod 2 ^ 32 - 2 ^ 31"

text \<open>A value that a Go \<open>int\<close> variable can hold.\<close>

definition is_go_int :: "int \<Rightarrow> bool" where
  "is_go_int x \<longleftrightarrow> - (2 ^ 63) \<le> x \<and> x < 2 ^ 63"

text \<open>Run-time panics of the code.\<close>

datatype panic = DivideByZero | NilPointerDereference | IndexOutOfRange

text \<open>
  Go \<open>error\<close> values: an error that a collaborator returned, known by its message; an error
  built by \<open>fmt.Errorf\<close> from a format and the error it wraps with \<open>%w\<close>; an error built
  by \<open>fmt.Errorf\<close> from a format and a string it quotes with \<open>%q\<close>.  A nil error is \<open>None\<close>.
\<close>

datatype error = Failure string | Errorf string error | ErrorfQuoted string string

type_synonym goError = "error option"

section \<open>Partition counter: \<open>GetPartitionedBufferIdx\<close>\<close>

text \<open>
  \<open>GetPartitionedBufferIdx\<close> allocates the map \<open>messagePerPartitionMap\<close> and returns a closure
  over it.  The model passes the map explicitly: \<open>GetPartitionedBufferIdx\<close> is the fresh
  (empty) map, \<open>getVertexPartitionIdx\<close> is one call of the returned closure.  A Go map read
  of a missing key yields the zero value; \<open>%\<close> truncates towards zero (\<open>smod\<close>) and panics
  on a zero divisor.
\<close>

type_synonym messagePerPartitionMap = "string \<rightharpoonup> int"

definition GetPartitionedBufferIdx :: messagePerPartitionMap where
  "GetPartitionedBufferIdx = Map.empty"

definition map_read :: "messagePerPartitionMap \<Rightarrow> string \<Rightarrow> int" where
  "map_read m k = (case m k of None \<Rightarrow> 0 | Some v \<Rightarrow> v)"

definition getVertexPartitionIdx ::
  "string \<Rightarrow> int \<Rightarrow> messagePerPartitionMap \<Rightarrow> panic + (int \<times> messagePerPartitionMap)" where
  "getVertexPartitionIdx toVertex toVertexPartitionCount m =
     (if toVertexPartitionCount = 0 then Inl DivideByZero
      else
        let toVertexPartition = go_int (map_read m toVertex + 1) smod toVertexPartitionCount
        in Inr (go_int32 toVertexPartition, m(toVertex \<mapsto> toVertexPartition)))"

text \<open>\<open>n\<close> consecutive calls for one destination; the returned indices in call order.\<close>

fun calls :: "nat \<Rightarrow> string \<Rightarrow> int \<Rightarrow> messagePerPartitionMap \<Rightarrow> panic + (int list \<times> messagePerPartitionMap)" where
  "calls 0 toVertex cnt m = Inr ([], m)"
| "calls (Suc n) toVertex cnt m =
     (case getVertexPartitionIdx toVertex cnt m of
        Inl p \<Rightarrow> Inl p
      | Inr (i, m') \<Rightarrow>
          (case calls n toVertex cnt m' of
             Inl p \<Rightarrow> Inl p
           | Inr (is, m'') \<Rightarrow> Inr (i # is, m'')))"

text \<open>
  The counters a closure can hold after calls with a positive partition count: never
  negative, and small enough for the increment not to wrap.
\<close>

definition counters_ok :: "messagePerPartitionMap \<Rightarrow> bool" where
  "counters_ok m \<longleftrightarrow> (\<forall>k v. m k = Some v \<longrightarrow> 0 \<le> v \<and> v < 2 ^ 63 - 1)"

section \<open>Output router: the \<open>conditionalForwarder\<close> closure of \<open>Start\<close>\<close>

text \<open>
  The declarations of package \<open>dfv1\<close> are not part of the source file.  An edge is a record
  of the fields and accessors the closure reads; \<open>ToVertexPartitionCount\<close> is the value of
  \<open>edge.GetToVertexPartitionCount()\<close> and \<open>Operator\<close> the value of
  \<open>edge.Conditions.Tags.GetOperator()\<close>.  The operator type is left open.
\<close>

datatype VertexType = VertexTypeSource | VertexTypeSink | VertexTypeMapUDF | VertexTypeReduceUDF

record 'op TagConditions =
  Operator :: 'op
  Values :: "string list"

record 'op ForwardConditions =
  Tags :: "'op TagConditions option"

record 'op Edge =
  From :: string
  To :: string
  ToVertexType :: VertexType
  ToVertexPartitionCount :: int
  Conditions :: "'op ForwardConditions option"

record VertexBuffer =
  ToVertexName :: string
  ToVertexPartitionIdx :: int

text \<open>The value built by \<open>shuffle.NewShuffle(vertexName, bufferCount)\<close>.\<close>

record Shuffle =
  vertexName :: string
  buffersCount :: int

definition NewShuffle :: "string \<Rightarrow> int \<Rightarrow> Shuffle" where
  "NewShuffle name n = \<lparr>vertexName = name, buffersCount = n\<rparr>"

text \<open>
  The collaborators of packages \<open>dfv1\<close>, \<open>sharedutil\<close> and \<open>shuffle\<close> that the closure calls
  and whose bodies are not in the source file are parameters of the model: the drop
  sentinel \<open>dfv1.MessageTagDrop\<close>, \<open>sharedutil.CompareSlice\<close> and the method
  \<open>(*Shuffle).Shuffle\<close>, a stateless function of the shuffle value and the keys.
\<close>

record 'op collaborators =
  MessageTagDrop :: string
  CompareSlice :: "'op \<Rightarrow> string list \<Rightarrow> string list \<Rightarrow> bool"
  ShuffleKeys :: "Shuffle \<Rightarrow> string list \<Rightarrow> int"

text \<open>
  Modelled from the spec: \<open>sharedutil.StringSliceContains\<close> is not in the source file; the
  spec reads the call as "\<open>tags\<close> contains the drop sentinel", a linear search.
\<close>

fun StringSliceContains :: "string list \<Rightarrow> string \<Rightarrow> bool" where
  "StringSliceContains [] s = False"
| "StringSliceContains (x # xs) s = (if x = s then True else StringSliceContains xs s)"

text \<open>\<open>fmt.Sprintf("%s:%s", edge.From, edge.To)\<close>\<close>

definition edgeKey :: "('op, 'a) Edge_scheme \<Rightarrow> string" where
  "edgeKey edge = From edge @ '':'' @ To edge"

definition needShuffle :: "('op, 'a) Edge_scheme \<Rightarrow> bool" where
  "needShuffle edge \<longleftrightarrow>
     ToVertexType edge = VertexTypeReduceUDF \<and> ToVertexPartitionCount edge > 1"

text \<open>The loop that populates \<open>shuffleFuncMap\<close>, one pass over \<open>ToEdges\<close>.\<close>

type_synonym shuffleFuncMap = "string \<rightharpoonup> Shuffle"

fun populate :: "'op Edge list \<Rightarrow> shuffleFuncMap \<Rightarrow> shuffleFuncMap" where
  "populate [] sm = sm"
| "populate (edge # edges) sm =
     populate edges
       (if needShuffle edge
        then sm(edgeKey edge \<mapsto> NewShuffle (To edge) (ToVertexPartitionCount edge))
        else sm)"

definition newShuffleFuncMap :: "'op Edge list \<Rightarrow> shuffleFuncMap" where
  "newShuffleFuncMap edges = populate edges Map.empty"

text \<open>
  The block that appears twice in the closure (for an edge without conditions and for an
  edge whose conditions hold): shuffle or round-robin, then append.  A missing entry of
  \<open>shuffleFuncMap\<close> is a nil \<open>*Shuffle\<close>, whose method call dereferences nil.
\<close>

type_synonym routeState = "VertexBuffer list \<times> messagePerPartitionMap"

definition appendVertexBuffer ::
  "'op collaborators \<Rightarrow> shuffleFuncMap \<Rightarrow> string list \<Rightarrow> 'op Edge \<Rightarrow> routeState \<Rightarrow> panic + routeState" where
  "appendVertexBuffer c sm keys edge rs =
     (case rs of (result, m) \<Rightarrow>
        if needShuffle edge then
          (case sm (edgeKey edge) of
             None \<Rightarrow> Inl NilPointerDereference
           | Some s \<Rightarrow>
               Inr (result @ [\<lparr>ToVertexName = To edge,
                               ToVertexPartitionIdx = ShuffleKeys c s keys\<rparr>], m))
        else
          (case getVertexPartitionIdx (To edge) (ToVertexPartitionCount edge) m of
             Inl p \<Rightarrow> Inl p
           | Inr (i, m') \<Rightarrow>
               Inr (result @ [\<lparr>ToVertexName = To edge, ToVertexPartitionIdx = i\<rparr>], m')))"

text \<open>The test of line 184: no conditions, no tags, or no values.\<close>

definition noConditions :: "'op Edge \<Rightarrow> bool" where
  "noConditions edge \<longleftrightarrow>
     (case Conditions edge of
        None \<Rightarrow> True
      | Some cs \<Rightarrow>
          (case Tags cs of
             None \<Rightarrow> True
           | Some ts \<Rightarrow> length (Values ts) = 0))"

text \<open>The body of the loop over \<open>ToEdges\<close>.\<close>

definition routeEdge ::
  "'op collaborators \<Rightarrow> shuffleFuncMap \<Rightarrow> string list \<Rightarrow> string list \<Rightarrow> 'op Edge \<Rightarrow> routeState \<Rightarrow> panic + routeState" where
  "routeEdge c sm keys tags edge rs =
     (if noConditions edge then appendVertexBuffer c sm keys edge rs
      else
        (case Conditions edge of
           None \<Rightarrow> Inr rs
         | Some cs \<Rightarrow>
             (case Tags cs of
                None \<Rightarrow> Inr rs
              | Some ts \<Rightarrow>
                  if CompareSlice c (Operator ts) tags (Values ts)
                  then appendVertexBuffer c sm keys edge rs
                  else Inr rs)))"

fun routeEdges ::
  "'op collaborators \<Rightarrow> shuffleFuncMap \<Rightarrow> string list \<Rightarrow> string list \<Rightarrow> 'op Edge list \<Rightarrow> routeState \<Rightarrow> panic + routeState" where
  "routeEdges c sm keys tags [] rs = Inr rs"
| "routeEdges c sm keys tags (edge # edges) rs =
     (case routeEdge c sm keys tags edge rs of
        Inl p \<Rightarrow> Inl p
      | Inr rs' \<Rightarrow> routeEdges c sm keys tags edges rs')"

text \<open>
  The closure itself.  It returns the slice and a Go \<open>error\<close> (\<open>None\<close> is nil), and leaves the
  counters of its \<open>getVertexPartitionIdx\<close> updated.
\<close>

definition conditionalForwarder ::
  "'op collaborators \<Rightarrow> 'op Edge list \<Rightarrow> shuffleFuncMap \<Rightarrow> string list \<Rightarrow> string list \<Rightarrow>
     messagePerPartitionMap \<Rightarrow> panic + ((VertexBuffer list \<times> goError) \<times> messagePerPartitionMap)" where
  "conditionalForwarder c toEdges sm keys tags m =
     (if StringSliceContains tags (MessageTagDrop c) then Inr (([], None), m)
      else
        (case routeEdges c sm keys tags toEdges ([], m) of
           Inl p \<Rightarrow> Inl p
         | Inr (result, m') \<Rightarrow> Inr ((result, None), m')))"

section \<open>Lifecycle manager: \<open>MapUDFProcessor.Start\<close>\<close>

text \<open>
  \<open>Start\<close> is modelled as the sequence of observable steps of its own goroutine: every call
  of a collaborator that can fail (with the error it returned), every \<open>go\<close> statement, the
  wait-group operations, every close, and the deferred calls, in program order, together
  with the way \<open>Start\<close> ends.  What the collaborators return is the input of the model.
  The partition goroutines run concurrently with it; they are modelled in the next
  section, as steps that interleave with this trace.
\<close>

text \<open>
  \<open>dfv1.ISBSvcType\<close> is a string type with two named values; \<open>ISBSvcTypeOther\<close> stands for
  any other string, the \<open>default\<close> branch of the switch.
\<close>

datatype ISBSvcType = ISBSvcTypeRedis | ISBSvcTypeJetStream | ISBSvcTypeOther string

text \<open>
  The fields of the processor that \<open>Start\<close> branches on: \<open>OwnedBuffers\<close> is
  \<open>u.VertexInstance.Vertex.OwnedBuffers()\<close>, \<open>WatermarkDisabled\<close> is
  \<open>u.VertexInstance.Vertex.Spec.Watermark.Disabled\<close>.
\<close>

record MapUDFProcessor =
  ISBSvc :: ISBSvcType
  OwnedBuffers :: "string list"
  WatermarkDisabled :: bool

text \<open>
  What each collaborator returns on one run.  A constructor that returns \<open>(value, error)\<close>
  is a sum, \<open>Inl\<close> the error.  Readers are known by name only.  A Go map is given as
  the list of its entries in the order the \<open>range\<close> statement visits them on this run; a
  publisher or store carries the error its \<open>Close\<close> returns.
\<close>

record collaboratorResults =
  jsclient_NewClientPool :: goError
  buildRedisBufferIO :: "error + string list"
  generic_BuildNoOpWatermarkProgressors :: "(string \<times> goError) list"
  jetstream_BuildProcessorManagers :: "error + string list"
  jetstream_BuildToVertexWatermarkStores :: "error + (string \<times> goError) list"
  jetstream_BuildPublishersFromStores :: "(string \<times> goError) list"
  buildJetStreamBufferIO :: "error + string list"
  vertex_MapUdfStreamEnabled :: "error + bool"
  mapstreamer_New :: goError
  mapStreamHandler_WaitUntilReady :: goError
  mapStreamHandler_CloseConn :: goError
  mapper_New :: goError
  mapHandler_WaitUntilReady :: goError
  mapHandler_CloseConn :: goError
  forward_NewInterStepDataForward :: "nat \<Rightarrow> goError"
  metricsServer_Start :: goError

datatype operation =
    OpNewClientPool
  | OpBuildRedisBufferIO
  | OpBuildProcessorManagers
  | OpBuildToVertexWatermarkStores
  | OpBuildJetStreamBufferIO
  | OpMapUdfStreamEnabled
  | OpNewMapStreamClient
  | OpMapStreamWaitUntilReady
  | OpNewMapClient
  | OpMapWaitUntilReady
  | OpNewInterStepDataForward nat
  | OpMetricsServerStart

datatype event =
    Call operation goError
  | WaitGroupAdd
  | GoForwarder nat
  | WaitGroupWait
  | ProcessorManagerClose string
  | PublisherClose string goError
  | LogPublisherCloseError
  | StoreClose string goError
  | LogAllExited
  | MetricsShutdown
  | HandlerCloseConn goError
  | LogCloseConnWarning
  | ClientPoolCloseAll
  | ContextCancel

datatype outcome = Return goError | Panic panic

text \<open>The variables declared at lines 67 to 77 that the later steps read.\<close>

record resources =
  readers :: "string list"
  processorManagers :: "string list"
  publishWatermark :: "(string \<times> goError) list"
  wmStores :: "(string \<times> goError) list"

text \<open>The \<open>switch u.ISBSvcType\<close> of lines 79 to 118.\<close>

definition provisionBuffers ::
  "MapUDFProcessor \<Rightarrow> collaboratorResults \<Rightarrow> event list \<times> (error + resources)" where
  "provisionBuffers u w =
     (case ISBSvc u of
        ISBSvcTypeRedis \<Rightarrow>
          (case buildRedisBufferIO w of
             Inl err \<Rightarrow> ([Call OpBuildRedisBufferIO (Some err)], Inl err)
           | Inr rs \<Rightarrow>
               ([Call OpBuildRedisBufferIO None],
                Inr \<lparr>readers = rs, processorManagers = [],
                     publishWatermark = generic_BuildNoOpWatermarkProgressors w,
                     wmStores = []\<rparr>))
      | ISBSvcTypeJetStream \<Rightarrow>
          if WatermarkDisabled u then
            ([], Inr \<lparr>readers = [], processorManagers = [],
                      publishWatermark = generic_BuildNoOpWatermarkProgressors w,
                      wmStores = []\<rparr>)
          else
            (case jetstream_BuildProcessorManagers w of
               Inl err \<Rightarrow>
                 ([Call OpBuildProcessorManagers (Some err)],
                  Inl (Errorf ''failed to build processor manager: %w'' err))
             | Inr pms \<Rightarrow>
                 (case jetstream_BuildToVertexWatermarkStores w of
                    Inl err \<Rightarrow>
                      ([Call OpBuildProcessorManagers None,
                        Call OpBuildToVertexWatermarkStores (Some err)], Inl err)
                  | Inr stores \<Rightarrow>
                      (case buildJetStreamBufferIO w of
                         Inl err \<Rightarrow>
                           ([Call OpBuildProcessorManagers None,
                             Call OpBuildToVertexWatermarkStores None,
                             Call OpBuildJetStreamBufferIO (Some err)], Inl err)
                       | Inr rs \<Rightarrow>
                           ([Call OpBuildProcessorManagers None,
                             Call OpBuildToVertexWatermarkStores None,
                             Call OpBuildJetStreamBufferIO None],
                            Inr \<lparr>readers = rs, processorManagers = pms,
                                 publishWatermark = jetstream_BuildPublishersFromStores w,
                                 wmStores = stores\<rparr>))))
      | ISBSvcTypeOther t \<Rightarrow>
          ([], Inl (ErrorfQuoted ''unrecognized isbsvc type %q'' t)))"

text \<open>
  Lines 120 to 161: the streaming flag, the handler client and its readiness check.  On
  success the result is the flag and the error that the deferred \<open>CloseConn\<close> of the chosen
  handler will return.
\<close>

definition provisionHandler ::
  "collaboratorResults \<Rightarrow> event list \<times> (error + (bool \<times> goError))" where
  "provisionHandler w =
     (case vertex_MapUdfStreamEnabled w of
        Inl err \<Rightarrow>
          ([Call OpMapUdfStreamEnabled (Some err)],
           Inl (Errorf ''failed to parse UDF map streaming metadata, %w'' err))
      | Inr enableMapUdfStream \<Rightarrow>
          if enableMapUdfStream then
            (case mapstreamer_New w of
               Some err \<Rightarrow>
                 ([Call OpMapUdfStreamEnabled None, Call OpNewMapStreamClient (Some err)],
                  Inl (Errorf ''failed to create map stream client, %w'' err))
             | None \<Rightarrow>
                 (case mapStreamHandler_WaitUntilReady w of
                    Some err \<Rightarrow>
                      ([Call OpMapUdfStreamEnabled None, Call OpNewMapStreamClient None,
                        Call OpMapStreamWaitUntilReady (Some err)],
                       Inl (Errorf ''failed on map stream UDF readiness check, %w'' err))
                  | None \<Rightarrow>
                      ([Call OpMapUdfStreamEnabled None, Call OpNewMapStreamClient None,
                        Call OpMapStreamWaitUntilReady None],
                       Inr (True, mapStreamHandler_CloseConn w))))
          else
            (case mapper_New w of
               Some err \<Rightarrow>
                 ([Call OpMapUdfStreamEnabled None, Call OpNewMapClient (Some err)],
                  Inl (Errorf ''failed to create map client, %w'' err))
             | None \<Rightarrow>
                 (case mapHandler_WaitUntilReady w of
                    Some err \<Rightarrow>
                      ([Call OpMapUdfStreamEnabled None, Call OpNewMapClient None,
                        Call OpMapWaitUntilReady (Some err)],
                       Inl (Errorf ''failed on map UDF readiness check, %w'' err))
                  | None \<Rightarrow>
                      ([Call OpMapUdfStreamEnabled None, Call OpNewMapClient None,
                        Call OpMapWaitUntilReady None],
                       Inr (False, mapHandler_CloseConn w)))))"

text \<open>
  The loop of lines 163 to 255 from partition \<open>index\<close> on.  \<open>readers[index]\<close> panics when the
  index is out of range; a forwarder that cannot be built ends \<open>Start\<close> with its error;
  otherwise the wait group is incremented and the goroutine of the partition is started.
  The result is \<open>None\<close> when the loop runs to its end.
\<close>

fun startForwarders ::
  "collaboratorResults \<Rightarrow> string list \<Rightarrow> nat \<Rightarrow> string list \<Rightarrow> event list \<times> outcome option" where
  "startForwarders w rs index [] = ([], None)"
| "startForwarders w rs index (bufferPartition # fromBuffer) =
     (if index \<ge> length rs then ([], Some (Panic IndexOutOfRange))
      else
        (case forward_NewInterStepDataForward w index of
           Some err \<Rightarrow>
             ([Call (OpNewInterStepDataForward index) (Some err)], Some (Return (Some err)))
         | None \<Rightarrow>
             (case startForwarders w rs (Suc index) fromBuffer of
                (evs, out) \<Rightarrow>
                  ([Call (OpNewInterStepDataForward index) None, WaitGroupAdd,
                    GoForwarder index] @ evs, out))))"

text \<open>Lines 273 to 294: the three close loops and the final log line.\<close>

definition closePublisher :: "string \<times> goError \<Rightarrow> event list" where
  "closePublisher p =
     (case p of (name, err) \<Rightarrow>
        PublisherClose name err # (if err \<noteq> None then [LogPublisherCloseError] else []))"

definition closeStore :: "string \<times> goError \<Rightarrow> event" where
  "closeStore s = (case s of (name, err) \<Rightarrow> StoreClose name err)"

definition teardown :: "resources \<Rightarrow> event list" where
  "teardown r =
     map ProcessorManagerClose (processorManagers r)
     @ concat (map closePublisher (publishWatermark r))
     @ map closeStore (wmStores r)
     @ [LogAllExited]"

text \<open>The deferred closure of lines 137 and 155.\<close>

definition deferredCloseConn :: "goError \<Rightarrow> event list" where
  "deferredCloseConn err =
     HandlerCloseConn err # (if err \<noteq> None then [LogCloseConnWarning] else [])"

text \<open>
  \<open>Start\<close>.  The deferred calls run last in first out when the function returns or panics:
  \<open>cancel\<close> is deferred first, then \<open>natsClientPool.CloseAll\<close>, then the handler's
  \<open>CloseConn\<close>, then the shutdown of the metrics server.
\<close>

definition Start :: "MapUDFProcessor \<Rightarrow> collaboratorResults \<Rightarrow> event list \<times> outcome" where
  "Start u w =
     (case jsclient_NewClientPool w of
        Some err \<Rightarrow>
          ([Call OpNewClientPool (Some err), ContextCancel],
           Return (Some (Errorf ''failed to create a new NATS client pool: %w'' err)))
      | None \<Rightarrow>
          (case provisionBuffers u w of
             (t1, Inl err) \<Rightarrow>
               (Call OpNewClientPool None # t1 @ [ClientPoolCloseAll, ContextCancel],
                Return (Some err))
           | (t1, Inr r) \<Rightarrow>
               (case provisionHandler w of
                  (t2, Inl err) \<Rightarrow>
                    (Call OpNewClientPool None # t1 @ t2 @ [ClientPoolCloseAll, ContextCancel],
                     Return (Some err))
                | (t2, Inr (enableMapUdfStream, closeErr)) \<Rightarrow>
                    (case startForwarders w (readers r) 0 (OwnedBuffers u) of
                       (t3, Some out) \<Rightarrow>
                         (Call OpNewClientPool None # t1 @ t2 @ t3
                            @ deferredCloseConn closeErr
                            @ [ClientPoolCloseAll, ContextCancel],
                          out)
                     | (t3, None) \<Rightarrow>
                         (case metricsServer_Start w of
                            Some err \<Rightarrow>
                              (Call OpNewClientPool None # t1 @ t2 @ t3
                                 @ [Call OpMetricsServerStart (Some err)]
                                 @ deferredCloseConn closeErr
                                 @ [ClientPoolCloseAll, ContextCancel],
                               Return (Some (Errorf
                                  ''failed to start metrics server, error: %w'' err)))
                          | None \<Rightarrow>
                              (Call OpNewClientPool None # t1 @ t2 @ t3
                                 @ [Call OpMetricsServerStart None, WaitGroupWait]
                                 @ teardown r
                                 @ [MetricsShutdown]
                                 @ deferredCloseConn closeErr
                                 @ [ClientPoolCloseAll, ContextCancel],
                               Return None))))))"

text \<open>The partitions whose goroutine a trace starts, in order.\<close>

fun startedForwarders :: "event list \<Rightarrow> nat list" where
  "startedForwarders [] = []"
| "startedForwarders (GoForwarder i # evs) = i # startedForwarders evs"
| "startedForwarders (_ # evs) = startedForwarders evs"

section \<open>The partition goroutines and the wait group\<close>


datatype workerStep = ForwarderStart | ForwarderStop | WorkerExit

text \<open>
  A step of the whole process: the next step of \<open>Start\<close>, a step of the worker of a
  partition, or the cancellation of the context from outside.
\<close>

datatype step = MainStep event | WorkerStep nat workerStep | ExternalCancel






section \<open>Specification-side definitions and sample data\<close>

text \<open>
  The matching rule in the words of the specification: an edge is matched when it has no
  tag condition (no conditions, no tag set, or an empty set of required values) or when
  the tags satisfy the edge's operator against the required values.
\<close>

definition spec_edgeMatched :: "'op collaborators \<Rightarrow> string list \<Rightarrow> 'op Edge \<Rightarrow> bool" where
  "spec_edgeMatched c tags edge \<longleftrightarrow>
     Conditions edge = None
     \<or> (\<exists>cs. Conditions edge = Some cs \<and> Tags cs = None)
     \<or> (\<exists>cs ts. Conditions edge = Some cs \<and> Tags cs = Some ts \<and> Values ts = [])
     \<or> (\<exists>cs ts. Conditions edge = Some cs \<and> Tags cs = Some ts
            \<and> CompareSlice c (Operator ts) tags (Values ts))"

text \<open>
  Two runs of the loop agree on a set of destination names: the same panic, or the same
  assignments and the same counters for those names.
\<close>

definition agree :: "string set \<Rightarrow> panic + routeState \<Rightarrow> panic + routeState \<Rightarrow> bool" where
  "agree S x y \<longleftrightarrow>
     (case (x, y) of
        (Inl p, Inl q) \<Rightarrow> p = q
      | (Inr (r1, m1), Inr (r2, m2)) \<Rightarrow> r1 = r2 \<and> (\<forall>k \<in> S. m1 k = m2 k)
      | _ \<Rightarrow> False)"

text \<open>The events that close a shared resource during teardown.\<close>

fun isClose :: "event \<Rightarrow> bool" where
  "isClose (ProcessorManagerClose _) = True"
| "isClose (PublisherClose _ _) = True"
| "isClose (StoreClose _ _) = True"
| "isClose _ = False"

text \<open>
  Sample collaborators and a sample topology for concrete runs: a logical operator with
  the two values the specification names, a comparison in which \<open>and\<close> asks for every
  required value among the tags and \<open>or\<close> for one of them, and a shuffle that spreads keys
  by their total length.
\<close>

datatype LogicOperator = LogicOperatorAnd | LogicOperatorOr

fun sampleCompareSlice :: "LogicOperator \<Rightarrow> string list \<Rightarrow> string list \<Rightarrow> bool" where
  "sampleCompareSlice LogicOperatorAnd tags vals = list_all (\<lambda>v. StringSliceContains tags v) vals"
| "sampleCompareSlice LogicOperatorOr tags vals = list_ex (\<lambda>v. StringSliceContains tags v) vals"

definition sampleCollaborators :: "LogicOperator collaborators" where
  "sampleCollaborators =
     \<lparr>MessageTagDrop = ''DROP'',
      CompareSlice = sampleCompareSlice,
      ShuffleKeys = (\<lambda>s keys. int (length (concat keys)) mod buffersCount s)\<rparr>"

definition reduceEdge :: "LogicOperator Edge" where
  "reduceEdge =
     \<lparr>From = ''map'', To = ''reduce'', ToVertexType = VertexTypeReduceUDF,
      ToVertexPartitionCount = 4, Conditions = None\<rparr>"

definition sinkEdge :: "LogicOperator Edge" where
  "sinkEdge =
     \<lparr>From = ''map'', To = ''sink'', ToVertexType = VertexTypeSink,
      ToVertexPartitionCount = 2, Conditions = None\<rparr>"

definition evenEdge :: "LogicOperator Edge" where
  "evenEdge =
     \<lparr>From = ''map'', To = ''even'', ToVertexType = VertexTypeSink,
      ToVertexPartitionCount = 3,
      Conditions = Some \<lparr>Tags = Some \<lparr>Operator = LogicOperatorAnd, Values = [''even'']\<rparr>\<rparr>\<rparr>"

definition sampleEdges :: "LogicOperator Edge list" where
  "sampleEdges = [reduceEdge, sinkEdge, evenEdge]"

text \<open>The operations whose call in a trace returned an error, in order.\<close>

fun failedCalls :: "event list \<Rightarrow> operation list" where
  "failedCalls [] = []"
| "failedCalls (Call op (Some err) # evs) = op # failedCalls evs"
| "failedCalls (_ # evs) = failedCalls evs"

text \<open>
  A sample run of \<open>Start\<close>: JetStream with watermarks, two input partitions, every
  collaborator succeeds during provisioning, and one publisher and one store fail to
  close.  In the second sample the forwarder of the second partition cannot be built.
\<close>

definition sampleProcessor :: MapUDFProcessor where
  "sampleProcessor =
     \<lparr>ISBSvc = ISBSvcTypeJetStream, OwnedBuffers = [''in-0'', ''in-1''],
      WatermarkDisabled = False\<rparr>"

definition sampleResults :: collaboratorResults where
  "sampleResults =
     \<lparr>jsclient_NewClientPool = None,
      buildRedisBufferIO = Inr [''in-0'', ''in-1''],
      generic_BuildNoOpWatermarkProgressors = [(''reduce'', None), (''sink'', None)],
      jetstream_BuildProcessorManagers = Inr [''source''],
      jetstream_BuildToVertexWatermarkStores =
        Inr [(''reduce'', None), (''sink'', Some (Failure ''store'' ))],
      jetstream_BuildPublishersFromStores =
        [(''reduce'', Some (Failure ''publisher'')), (''sink'', None)],
      buildJetStreamBufferIO = Inr [''in-0'', ''in-1''],
      vertex_MapUdfStreamEnabled = Inr False,
      mapstreamer_New = None,
      mapStreamHandler_WaitUntilReady = None,
      mapStreamHandler_CloseConn = None,
      mapper_New = None,
      mapHandler_WaitUntilReady = None,
      mapHandler_CloseConn = None,
      forward_NewInterStepDataForward = (\<lambda>index. None),
      metricsServer_Start = None\<rparr>"

definition secondForwarderFails :: collaboratorResults where
  "secondForwarderFails =
     sampleResults\<lparr>forward_NewInterStepDataForward :=
       (\<lambda>index. if index = 1 then Some (Failure ''forwarder'') else None)\<rparr>"












section \<open>Helper facts\<close>

lemma StringSliceContains_iff: "StringSliceContains xs s \<longleftrightarrow> s \<in> set xs"
  by (induction xs) auto

lemma routeEdge_matched:
  "spec_edgeMatched c tags edge \<Longrightarrow>
     routeEdge c sm keys tags edge rs = appendVertexBuffer c sm keys edge rs"
  by (auto simp: spec_edgeMatched_def routeEdge_def noConditions_def split: option.splits)

lemma routeEdge_unmatched:
  "\<not> spec_edgeMatched c tags edge \<Longrightarrow> routeEdge c sm keys tags edge rs = Inr rs"
  by (auto simp: spec_edgeMatched_def routeEdge_def noConditions_def split: option.splits)

section \<open>The drop sentinel\<close>

text \<open>
  Claim C1.  When the tags of a record contain the drop sentinel, the route function
  returns the empty list of destination assignments with a nil error, whatever the keys,
  the edges and the shuffle cache are, and it leaves the partition counters as they were:
  no edge is evaluated.
\<close>

theorem drop_routes_nowhere:
  "MessageTagDrop c \<in> set tags \<Longrightarrow>
     conditionalForwarder c toEdges sm keys tags m = Inr (([], None), m)"
  by (simp add: conditionalForwarder_def StringSliceContains_iff)

theorem drop_routes_nowhere_witness:
  "MessageTagDrop sampleCollaborators \<in> set [''x'', ''DROP'']
   \<and> conditionalForwarder sampleCollaborators sampleEdges (newShuffleFuncMap sampleEdges)
        [''k''] [''x'', ''DROP''] GetPartitionedBufferIdx
      = Inr (([], None), GetPartitionedBufferIdx)"
proof -
  have h: "MessageTagDrop sampleCollaborators \<in> set [''x'', ''DROP'']"
    by (simp add: sampleCollaborators_def)
  from drop_routes_nowhere [OF h] h show ?thesis by simp
qed

lemmas sample_defs =
  sampleCollaborators_def sampleEdges_def reduceEdge_def sinkEdge_def evenEdge_def
  conditionalForwarder_def routeEdge_def noConditions_def appendVertexBuffer_def
  needShuffle_def edgeKey_def newShuffleFuncMap_def NewShuffle_def
  getVertexPartitionIdx_def map_read_def go_int_def go_int32_def signed_modulo_int_def
  GetPartitionedBufferIdx_def

lemma sample_run_even:
  "conditionalForwarder sampleCollaborators sampleEdges (newShuffleFuncMap sampleEdges)
     [''k''] [''even''] GetPartitionedBufferIdx
   = Inr (([\<lparr>ToVertexName = ''reduce'', ToVertexPartitionIdx = 1\<rparr>,
            \<lparr>ToVertexName = ''sink'', ToVertexPartitionIdx = 1\<rparr>,
            \<lparr>ToVertexName = ''even'', ToVertexPartitionIdx = 1\<rparr>], None),
          [''sink'' \<mapsto> 1, ''even'' \<mapsto> 1])"
  by (simp add: sample_defs)

lemma sample_run_odd:
  "conditionalForwarder sampleCollaborators sampleEdges (newShuffleFuncMap sampleEdges)
     [''k''] [''odd''] GetPartitionedBufferIdx
   = Inr (([\<lparr>ToVertexName = ''reduce'', ToVertexPartitionIdx = 1\<rparr>,
            \<lparr>ToVertexName = ''sink'', ToVertexPartitionIdx = 1\<rparr>], None),
          [''sink'' \<mapsto> 1])"
  by (simp add: sample_defs)

lemma sample_matched_odd:
  "filter (spec_edgeMatched sampleCollaborators [''odd'']) sampleEdges = [reduceEdge, sinkEdge]"
  by (simp add: spec_edgeMatched_def sampleCollaborators_def sampleEdges_def reduceEdge_def
      sinkEdge_def evenEdge_def)

lemma appendVertexBuffer_Inr:
  "appendVertexBuffer c sm keys edge (result, m) = Inr (result', m') \<Longrightarrow>
     \<exists>i. result' = result @ [\<lparr>ToVertexName = To edge, ToVertexPartitionIdx = i\<rparr>]"
  by (auto simp: appendVertexBuffer_def split: if_splits option.splits sum.splits)

lemma routeEdges_names:
  "routeEdges c sm keys tags edges (result, m) = Inr (result', m') \<Longrightarrow>
     map ToVertexName result' =
       map ToVertexName result @ map To (filter (spec_edgeMatched c tags) edges)"
proof (induction edges arbitrary: result m)
  case Nil
  then show ?case by simp
next
  case (Cons edge edges)
  show ?case
  proof (cases "spec_edgeMatched c tags edge")
    case True
    with Cons.prems obtain r1 m1 where
      a: "appendVertexBuffer c sm keys edge (result, m) = Inr (r1, m1)"
      and b: "routeEdges c sm keys tags edges (r1, m1) = Inr (result', m')"
      by (auto simp: routeEdge_matched split: sum.splits)
    from appendVertexBuffer_Inr[OF a] obtain i where
      "r1 = result @ [\<lparr>ToVertexName = To edge, ToVertexPartitionIdx = i\<rparr>]" ..
    with Cons.IH[OF b] True show ?thesis by simp
  next
    case False
    with Cons.prems have "routeEdges c sm keys tags edges (result, m) = Inr (result', m')"
      by (simp add: routeEdge_unmatched)
    from Cons.IH[OF this] False show ?thesis by simp
  qed
qed

section \<open>Which edges receive a record\<close>

text \<open>
  Claim C3.  For a record that is not dropped, the destinations of the returned
  assignments are exactly the destinations of the matched edges, in edge order and one
  per matched edge, where an edge is matched when it has no tag condition (no conditions,
  no tag set, no required values) or the tags satisfy its operator against its values.
\<close>

theorem matched_edges_each_assigned_once:
  assumes "MessageTagDrop c \<notin> set tags"
    and "conditionalForwarder c toEdges sm keys tags m = Inr ((result, err), m')"
  shows "map ToVertexName result = map To (filter (spec_edgeMatched c tags) toEdges)"
  using assms routeEdges_names[of c sm keys tags toEdges "[]" m]
  by (auto simp: conditionalForwarder_def StringSliceContains_iff split: sum.splits)

theorem matched_edges_each_assigned_once_witness:
  "MessageTagDrop sampleCollaborators \<notin> set [''odd'']
   \<and> conditionalForwarder sampleCollaborators sampleEdges (newShuffleFuncMap sampleEdges)
        [''k''] [''odd''] GetPartitionedBufferIdx
      = Inr (([\<lparr>ToVertexName = ''reduce'', ToVertexPartitionIdx = 1\<rparr>,
               \<lparr>ToVertexName = ''sink'', ToVertexPartitionIdx = 1\<rparr>], None),
             [''sink'' \<mapsto> 1])
   \<and> map To (filter (spec_edgeMatched sampleCollaborators [''odd'']) sampleEdges)
      = [''reduce'', ''sink'']"
proof -
  have h: "MessageTagDrop sampleCollaborators \<notin> set [''odd'']"
    by (simp add: sampleCollaborators_def)
  from matched_edges_each_assigned_once [OF h sample_run_odd] h sample_run_odd
  show ?thesis by simp
qed

lemma populate_other:
  "k \<notin> edgeKey ` {e \<in> set edges. needShuffle e} \<Longrightarrow> populate edges sm k = sm k"
proof (induction edges arbitrary: sm)
  case Nil
  then show ?case by simp
next
  case (Cons a edges)
  then have rest: "k \<notin> edgeKey ` {e \<in> set edges. needShuffle e}" by auto
  have "needShuffle a \<Longrightarrow> k \<noteq> edgeKey a" using Cons.prems by auto
  then show ?case using Cons.IH[OF rest] by simp
qed

lemma populate_dom:
  "dom (populate edges sm) = dom sm \<union> edgeKey ` {e \<in> set edges. needShuffle e}"
  by (induction edges arbitrary: sm) auto

lemma newShuffleFuncMap_dom:
  "dom (newShuffleFuncMap edges) = edgeKey ` {e \<in> set edges. needShuffle e}"
  by (simp add: newShuffleFuncMap_def populate_dom)

lemma newShuffleFuncMap_entry:
  assumes "edge \<in> set edges" "needShuffle edge"
  shows "\<exists>s. newShuffleFuncMap edges (edgeKey edge) = Some s"
proof -
  have "edgeKey edge \<in> dom (newShuffleFuncMap edges)"
    using assms by (auto simp: newShuffleFuncMap_dom)
  then show ?thesis by (simp add: dom_def)
qed

lemma appendVertexBuffer_shuffle:
  "needShuffle edge \<Longrightarrow>
     appendVertexBuffer c sm keys edge (result, m) =
       (case sm (edgeKey edge) of
          None \<Rightarrow> Inl NilPointerDereference
        | Some s \<Rightarrow>
            Inr (result @ [\<lparr>ToVertexName = To edge,
                            ToVertexPartitionIdx = ShuffleKeys c s keys\<rparr>], m))"
  by (simp add: appendVertexBuffer_def)

lemma appendVertexBuffer_counter:
  "\<not> needShuffle edge \<Longrightarrow>
     appendVertexBuffer c sm keys edge (result, m) =
       (case getVertexPartitionIdx (To edge) (ToVertexPartitionCount edge) m of
          Inl p \<Rightarrow> Inl p
        | Inr (i, m') \<Rightarrow>
            Inr (result @ [\<lparr>ToVertexName = To edge, ToVertexPartitionIdx = i\<rparr>], m'))"
  by (simp add: appendVertexBuffer_def)





section \<open>How the partition of a matched edge is chosen\<close>





lemma appendVertexBuffer_ok:
  assumes "needShuffle edge \<longrightarrow> sm (edgeKey edge) \<noteq> None"
    and "ToVertexPartitionCount edge \<noteq> 0"
  shows "\<exists>rs'. appendVertexBuffer c sm keys edge rs = Inr rs'"
  using assms
  by (cases rs) (auto simp: appendVertexBuffer_def getVertexPartitionIdx_def Let_def)

lemma routeEdge_ok:
  assumes "needShuffle edge \<longrightarrow> sm (edgeKey edge) \<noteq> None"
    and "ToVertexPartitionCount edge \<noteq> 0"
  shows "\<exists>rs'. routeEdge c sm keys tags edge rs = Inr rs'"
  using appendVertexBuffer_ok[of edge sm c keys rs] assms
  by (cases "spec_edgeMatched c tags edge")
     (simp_all add: routeEdge_matched routeEdge_unmatched)

lemma routeEdges_ok:
  assumes "\<forall>e \<in> set edges.
             (needShuffle e \<longrightarrow> sm (edgeKey e) \<noteq> None) \<and> ToVertexPartitionCount e \<noteq> 0"
  shows "\<exists>rs'. routeEdges c sm keys tags edges rs = Inr rs'"
  using assms
proof (induction edges arbitrary: rs)
  case Nil
  then show ?case by simp
next
  case (Cons a edges)
  then obtain rs1 where "routeEdge c sm keys tags a rs = Inr rs1"
    using routeEdge_ok[of a sm c keys tags rs] by auto
  then show ?case using Cons by simp
qed

section \<open>The route function does not fail\<close>

text \<open>
  Claim C8.  On a topology whose edges satisfy the invariant of the data model (partition
  count at least 1), with the shuffle cache that \<open>Start\<close> populates from the same edges,
  the route function returns for every keys, tags and counters: it does not panic, and the
  error it returns is nil.  The cache holds an entry for exactly the keys of the edges that
  take the shuffle branch, so every lookup on that branch finds one.
\<close>

theorem route_never_fails:
  assumes "\<forall>e \<in> set toEdges. 1 \<le> ToVertexPartitionCount e"
  shows "(\<exists>result m'.
            conditionalForwarder c toEdges (newShuffleFuncMap toEdges) keys tags m
              = Inr ((result, None), m'))
       \<and> dom (newShuffleFuncMap toEdges)
           = edgeKey ` {e \<in> set toEdges.
                          ToVertexType e = VertexTypeReduceUDF \<and> ToVertexPartitionCount e > 1}"
proof -
  have "\<forall>e \<in> set toEdges.
          (needShuffle e \<longrightarrow> newShuffleFuncMap toEdges (edgeKey e) \<noteq> None)
          \<and> ToVertexPartitionCount e \<noteq> 0"
    using assms newShuffleFuncMap_dom[of toEdges] by (auto simp: dom_def)
  from routeEdges_ok[OF this, of c keys tags "([], m)"]
  have "\<exists>result m'.
            conditionalForwarder c toEdges (newShuffleFuncMap toEdges) keys tags m
              = Inr ((result, None), m')"
    by (auto simp: conditionalForwarder_def)
  moreover have "dom (newShuffleFuncMap toEdges)
           = edgeKey ` {e \<in> set toEdges.
                          ToVertexType e = VertexTypeReduceUDF \<and> ToVertexPartitionCount e > 1}"
    by (simp add: newShuffleFuncMap_dom needShuffle_def)
  ultimately show ?thesis by blast
qed

theorem route_never_fails_witness:
  "1 \<le> ToVertexPartitionCount reduceEdge \<and> 1 \<le> ToVertexPartitionCount sinkEdge
   \<and> 1 \<le> ToVertexPartitionCount evenEdge
   \<and> (\<exists>result m'.
         conditionalForwarder sampleCollaborators sampleEdges (newShuffleFuncMap sampleEdges)
           [''k''] [''even''] GetPartitionedBufferIdx
         = Inr ((result, None), m'))
   \<and> dom (newShuffleFuncMap sampleEdges) = {''map:reduce''}"
proof -
  have h: "\<forall>e \<in> set sampleEdges. 1 \<le> ToVertexPartitionCount e"
    by (simp add: sampleEdges_def reduceEdge_def sinkEdge_def evenEdge_def)
  have d: "dom (newShuffleFuncMap sampleEdges) = {''map:reduce''}"
    by (simp add: sample_defs)
  from route_never_fails [OF h, of sampleCollaborators "[''k'']" "[''even'']"
      GetPartitionedBufferIdx] h d
  show ?thesis by (simp add: sampleEdges_def)
qed

lemma appendVertexBuffer_agree:
  assumes "To edge \<in> S" "\<forall>k \<in> S. m1 k = m2 k"
  shows "agree S (appendVertexBuffer c sm keys edge (r, m1))
                 (appendVertexBuffer c sm keys edge (r, m2))"
proof (cases "needShuffle edge")
  case True
  then show ?thesis using assms(2)
    by (simp add: appendVertexBuffer_shuffle agree_def split: option.splits)
next
  case False
  have eq: "m1 (To edge) = m2 (To edge)" using assms by blast
  show ?thesis
  proof (cases "ToVertexPartitionCount edge = 0")
    case True
    then show ?thesis using False
      by (simp add: appendVertexBuffer_counter agree_def getVertexPartitionIdx_def)
  next
    case nz: False
    then show ?thesis using False eq assms(2)
      by (simp add: appendVertexBuffer_counter agree_def getVertexPartitionIdx_def Let_def
          map_read_def)
  qed
qed

lemma routeEdge_agree:
  assumes "To edge \<in> S" "\<forall>k \<in> S. m1 k = m2 k"
  shows "agree S (routeEdge c sm keys tags edge (r, m1)) (routeEdge c sm keys tags edge (r, m2))"
proof (cases "spec_edgeMatched c tags edge")
  case True
  then show ?thesis using appendVertexBuffer_agree[OF assms] by (simp add: routeEdge_matched)
next
  case False
  then show ?thesis using assms(2) by (simp add: routeEdge_unmatched agree_def)
qed

lemma routeEdges_agree:
  assumes "To ` set edges \<subseteq> S" "\<forall>k \<in> S. m1 k = m2 k"
  shows "agree S (routeEdges c sm keys tags edges (r, m1))
                 (routeEdges c sm keys tags edges (r, m2))"
  using assms
proof (induction edges arbitrary: r m1 m2)
  case Nil
  then show ?case by (simp add: agree_def)
next
  case (Cons a edges)
  have a: "To a \<in> S" using Cons.prems(1) by simp
  have step: "agree S (routeEdge c sm keys tags a (r, m1)) (routeEdge c sm keys tags a (r, m2))"
    by (rule routeEdge_agree[OF a Cons.prems(2)])
  show ?case
  proof (cases "routeEdge c sm keys tags a (r, m1)")
    case (Inl p)
    then show ?thesis using step by (auto simp: agree_def split: sum.splits)
  next
    case (Inr rs1)
    obtain r1 n1 where rs1: "rs1 = (r1, n1)" by (cases rs1)
    with Inr step obtain n2 where
      s2: "routeEdge c sm keys tags a (r, m2) = Inr (r1, n2)" and ag: "\<forall>k \<in> S. n1 k = n2 k"
      by (auto simp: agree_def split: sum.splits)
    have "To ` set edges \<subseteq> S" using Cons.prems(1) by simp
    from Cons.IH[OF this ag, of r1] show ?thesis using Inr rs1 s2 by simp
  qed
qed

section \<open>Determinism of the route function\<close>

text \<open>
  Claim C9.  The outcome of the route function (the panic, or the assignments and the
  error) is determined by the keys, the tags, the edges, the cache and the counters of the
  destinations of the edges: two calls that start from counter maps which agree on those
  destinations return the same.  On an edge to a reduce vertex with more than one partition,
  two records with the same keys that both match the edge receive the same assignment,
  whatever their tags, the counters and the assignments collected so far.
\<close>

theorem route_deterministic:
  "((\<forall>e \<in> set toEdges. m1 (To e) = m2 (To e)) \<longrightarrow>
       map_sum id fst (conditionalForwarder c toEdges sm keys tags m1)
     = map_sum id fst (conditionalForwarder c toEdges sm keys tags m2))
   \<and> (ToVertexType edge = VertexTypeReduceUDF \<and> ToVertexPartitionCount edge > 1
        \<and> spec_edgeMatched c tags1 edge \<and> spec_edgeMatched c tags2 edge
        \<and> sm (edgeKey edge) = Some s \<longrightarrow>
          routeEdge c sm keys tags1 edge (r1, m1)
            = Inr (r1 @ [\<lparr>ToVertexName = To edge,
                          ToVertexPartitionIdx = ShuffleKeys c s keys\<rparr>], m1)
        \<and> routeEdge c sm keys tags2 edge (r2, m2)
            = Inr (r2 @ [\<lparr>ToVertexName = To edge,
                          ToVertexPartitionIdx = ShuffleKeys c s keys\<rparr>], m2))"
proof (rule conjI; rule impI)
  assume a: "\<forall>e \<in> set toEdges. m1 (To e) = m2 (To e)"
  have "agree (To ` set toEdges) (routeEdges c sm keys tags toEdges ([], m1))
                                  (routeEdges c sm keys tags toEdges ([], m2))"
    using a by (intro routeEdges_agree) auto
  then show "map_sum id fst (conditionalForwarder c toEdges sm keys tags m1)
          = map_sum id fst (conditionalForwarder c toEdges sm keys tags m2)"
    by (auto simp: conditionalForwarder_def agree_def split: sum.splits)
next
  assume b: "ToVertexType edge = VertexTypeReduceUDF \<and> ToVertexPartitionCount edge > 1
        \<and> spec_edgeMatched c tags1 edge \<and> spec_edgeMatched c tags2 edge
        \<and> sm (edgeKey edge) = Some s"
  then have ns: "needShuffle edge" by (simp add: needShuffle_def)
  from b ns show "routeEdge c sm keys tags1 edge (r1, m1)
            = Inr (r1 @ [\<lparr>ToVertexName = To edge,
                          ToVertexPartitionIdx = ShuffleKeys c s keys\<rparr>], m1)
        \<and> routeEdge c sm keys tags2 edge (r2, m2)
            = Inr (r2 @ [\<lparr>ToVertexName = To edge,
                          ToVertexPartitionIdx = ShuffleKeys c s keys\<rparr>], m2)"
    by (simp add: routeEdge_matched appendVertexBuffer_shuffle)
qed

theorem route_deterministic_witness:
  "GetPartitionedBufferIdx (To reduceEdge) = [''other'' \<mapsto> 7] (To reduceEdge)
   \<and> GetPartitionedBufferIdx (To sinkEdge) = [''other'' \<mapsto> 7] (To sinkEdge)
   \<and> GetPartitionedBufferIdx (To evenEdge) = [''other'' \<mapsto> 7] (To evenEdge)
   \<and> map_sum id fst (conditionalForwarder sampleCollaborators sampleEdges
         (newShuffleFuncMap sampleEdges) [''k''] [''even''] GetPartitionedBufferIdx)
     = map_sum id fst (conditionalForwarder sampleCollaborators sampleEdges
         (newShuffleFuncMap sampleEdges) [''k''] [''even''] [''other'' \<mapsto> 7])
   \<and> ToVertexType reduceEdge = VertexTypeReduceUDF \<and> ToVertexPartitionCount reduceEdge > 1
   \<and> spec_edgeMatched sampleCollaborators [''even''] reduceEdge
   \<and> spec_edgeMatched sampleCollaborators [''odd''] reduceEdge
   \<and> newShuffleFuncMap sampleEdges (edgeKey reduceEdge) = Some (NewShuffle ''reduce'' 4)
   \<and> routeEdge sampleCollaborators (newShuffleFuncMap sampleEdges) [''k''] [''even'']
        reduceEdge ([], GetPartitionedBufferIdx)
      = Inr ([\<lparr>ToVertexName = ''reduce'', ToVertexPartitionIdx = 1\<rparr>],
             GetPartitionedBufferIdx)
   \<and> routeEdge sampleCollaborators (newShuffleFuncMap sampleEdges) [''k''] [''odd'']
        reduceEdge ([], [''sink'' \<mapsto> 1])
      = Inr ([\<lparr>ToVertexName = ''reduce'', ToVertexPartitionIdx = 1\<rparr>], [''sink'' \<mapsto> 1])"
proof -
  have h1: "\<forall>e \<in> set sampleEdges. GetPartitionedBufferIdx (To e) = [''other'' \<mapsto> 7] (To e)"
    by (simp add: sampleEdges_def reduceEdge_def sinkEdge_def evenEdge_def
        GetPartitionedBufferIdx_def)
  have h2: "ToVertexType reduceEdge = VertexTypeReduceUDF \<and> ToVertexPartitionCount reduceEdge > 1
        \<and> spec_edgeMatched sampleCollaborators [''even''] reduceEdge
        \<and> spec_edgeMatched sampleCollaborators [''odd''] reduceEdge
        \<and> newShuffleFuncMap sampleEdges (edgeKey reduceEdge) = Some (NewShuffle ''reduce'' 4)"
    by (simp add: spec_edgeMatched_def sample_defs)
  have v: "ShuffleKeys sampleCollaborators (NewShuffle ''reduce'' 4) [''k''] = 1"
    by (simp add: sample_defs)
  have t: "To reduceEdge = ''reduce''" by (simp add: reduceEdge_def)
  from route_deterministic [of sampleEdges GetPartitionedBufferIdx "[''other'' \<mapsto> 7]"
      sampleCollaborators "newShuffleFuncMap sampleEdges" "[''k'']" "[''even'']"
      reduceEdge "[''even'']" "[''odd'']" "NewShuffle ''reduce'' 4" "[]" "[]"]
  have a: "map_sum id fst (conditionalForwarder sampleCollaborators sampleEdges
         (newShuffleFuncMap sampleEdges) [''k''] [''even''] GetPartitionedBufferIdx)
     = map_sum id fst (conditionalForwarder sampleCollaborators sampleEdges
         (newShuffleFuncMap sampleEdges) [''k''] [''even''] [''other'' \<mapsto> 7])"
    using h1 by blast
  from route_deterministic [of sampleEdges GetPartitionedBufferIdx "[''sink'' \<mapsto> 1]"
      sampleCollaborators "newShuffleFuncMap sampleEdges" "[''k'']" "[''even'']"
      reduceEdge "[''even'']" "[''odd'']" "NewShuffle ''reduce'' 4" "[]" "[]"]
  have b: "routeEdge sampleCollaborators (newShuffleFuncMap sampleEdges) [''k''] [''even'']
        reduceEdge ([], GetPartitionedBufferIdx)
      = Inr ([\<lparr>ToVertexName = ''reduce'', ToVertexPartitionIdx = 1\<rparr>],
             GetPartitionedBufferIdx)
   \<and> routeEdge sampleCollaborators (newShuffleFuncMap sampleEdges) [''k''] [''odd'']
        reduceEdge ([], [''sink'' \<mapsto> 1])
      = Inr ([\<lparr>ToVertexName = ''reduce'', ToVertexPartitionIdx = 1\<rparr>], [''sink'' \<mapsto> 1])"
    using h2 v t by simp
  show ?thesis using h1 h2 a b by (simp add: sampleEdges_def)
qed

lemma go_int_id: "is_go_int x \<Longrightarrow> go_int x = x"
  unfolding go_int_def is_go_int_def by (simp add: mod_pos_pos_trivial)

lemma go_int32_id: "- (2 ^ 31) \<le> x \<Longrightarrow> x < 2 ^ 31 \<Longrightarrow> go_int32 x = x"
  unfolding go_int32_def by (simp add: mod_pos_pos_trivial)

lemma smod_nonneg: "0 \<le> a \<Longrightarrow> 0 < b \<Longrightarrow> a smod b = a mod (b::int)"
  by (simp add: signed_modulo_int_def sgn_if)

lemma map_read_ok: "counters_ok m \<Longrightarrow> 0 \<le> map_read m k \<and> map_read m k < 2 ^ 63 - 1"
  by (auto simp: counters_ok_def map_read_def split: option.splits)

lemma counters_ok_fresh: "counters_ok GetPartitionedBufferIdx"
  by (simp add: counters_ok_def GetPartitionedBufferIdx_def)

lemma map_read_fresh: "map_read GetPartitionedBufferIdx d = 0"
  by (simp add: map_read_def GetPartitionedBufferIdx_def)

lemma getVertexPartitionIdx_ok:
  assumes "counters_ok m" "1 \<le> P"
  shows "getVertexPartitionIdx d P m =
           Inr (go_int32 ((map_read m d + 1) mod P), m(d \<mapsto> (map_read m d + 1) mod P))"
proof -
  from map_read_ok[OF assms(1), of d]
  have r: "0 \<le> map_read m d" "map_read m d < 2 ^ 63 - 1" by auto
  then have "is_go_int (map_read m d + 1)" by (simp add: is_go_int_def)
  then have "go_int (map_read m d + 1) = map_read m d + 1" by (rule go_int_id)
  moreover have "(map_read m d + 1) smod P = (map_read m d + 1) mod P"
    using r assms(2) by (intro smod_nonneg) auto
  ultimately show ?thesis using assms(2)
    by (simp add: getVertexPartitionIdx_def Let_def)
qed

lemma counters_ok_upd:
  "counters_ok m \<Longrightarrow> 0 \<le> v \<Longrightarrow> v < 2 ^ 63 - 1 \<Longrightarrow> counters_ok (m(d \<mapsto> v))"
  by (auto simp: counters_ok_def)

lemma counters_ok_step:
  assumes "counters_ok m" "1 \<le> P" "is_go_int P"
  shows "counters_ok (m(d \<mapsto> (map_read m d + 1) mod P))"
proof (rule counters_ok_upd[OF assms(1)])
  show "0 \<le> (map_read m d + 1) mod P" using assms(2) by simp
  have "(map_read m d + 1) mod P < P" using assms(2) by simp
  then show "(map_read m d + 1) mod P < 2 ^ 63 - 1" using assms(3) by (simp add: is_go_int_def)
qed

lemma calls_seq:
  assumes "1 \<le> P" "is_go_int P"
  shows "counters_ok m \<Longrightarrow>
     calls n d P m =
       Inr (map (\<lambda>k. go_int32 ((map_read m d + int (Suc k)) mod P)) [0..<n],
            if n = 0 then m else m(d \<mapsto> (map_read m d + int n) mod P))"
proof (induction n arbitrary: m)
  case 0
  then show ?case by simp
next
  case (Suc n)
  let ?m1 = "m(d \<mapsto> (map_read m d + 1) mod P)"
  have ok1: "counters_ok ?m1" using Suc.prems assms by (intro counters_ok_step)
  have r1: "map_read ?m1 d = (map_read m d + 1) mod P" by (simp add: map_read_def)
  have shift: "(map_read ?m1 d + int k) mod P = (map_read m d + int (Suc k)) mod P" for k
  proof -
    have "(map_read ?m1 d + int k) mod P = ((map_read m d + 1) mod P + int k) mod P"
      by (simp only: r1)
    also have "\<dots> = (map_read m d + 1 + int k) mod P" by (rule mod_add_left_eq)
    also have "\<dots> = (map_read m d + int (Suc k)) mod P" by (simp add: algebra_simps)
    finally show ?thesis .
  qed
  have step: "calls (Suc n) d P m =
          Inr (go_int32 ((map_read m d + 1) mod P)
                 # map (\<lambda>k. go_int32 ((map_read m d + int (Suc (Suc k))) mod P)) [0..<n],
               m(d \<mapsto> (map_read m d + int (Suc n)) mod P))"
    using getVertexPartitionIdx_ok[OF Suc.prems assms(1), of d] Suc.IH[OF ok1]
    by (simp only: calls.simps shift sum.case prod.case) (auto simp: algebra_simps)
  have e: "map (\<lambda>k. go_int32 ((map_read m d + int (Suc k)) mod P)) [0..<Suc n]
           = go_int32 ((map_read m d + 1) mod P)
               # map (\<lambda>k. go_int32 ((map_read m d + int (Suc (Suc k))) mod P)) [0..<n]"
    by (simp only: map_upt_Suc) simp
  show ?case unfolding e using step by (simp only: nat.distinct if_False)
qed

lemma calls_fresh:
  assumes "1 \<le> P" "is_go_int P"
  shows "calls n d P GetPartitionedBufferIdx =
       Inr (map (\<lambda>k. go_int32 (int (Suc k) mod P)) [0..<n],
            if n = 0 then GetPartitionedBufferIdx
            else GetPartitionedBufferIdx(d \<mapsto> int n mod P))"
  using calls_seq[OF assms counters_ok_fresh, of n d] by (simp add: map_read_fresh)

lemma go_int32_mod:
  assumes "1 \<le> P" "P \<le> 2 ^ 31"
  shows "go_int32 (x mod P) = x mod P"
proof (rule go_int32_id)
  have "0 \<le> x mod P" using assms(1) by simp
  then show "- (2 ^ 31) \<le> x mod P" by simp
  have "x mod P < P" using assms(1) by simp
  from this assms(2) show "x mod P < 2 ^ 31" by (rule less_le_trans)
qed

section \<open>The partition counter\<close>

text \<open>
  Claim C2, amended.  For a destination with partition count \<open>P\<close>, \<open>1 \<le> P \<le> 2\<^sup>3\<^sup>1\<close>, the
  calls number 1, 2, ..., \<open>n\<close> of a fresh partition counter for that destination return
  \<open>1 mod P\<close>, \<open>2 mod P\<close>, ..., \<open>n mod P\<close>: round-robin with period \<open>P\<close>, starting at
  \<open>1 mod P\<close>, and the counter stored afterwards is \<open>n mod P\<close>.
\<close>

theorem round_robin_sequence:
  assumes "1 \<le> P" "P \<le> 2 ^ 31"
  shows "calls n toVertex P GetPartitionedBufferIdx =
           Inr (map (\<lambda>k. int (Suc k) mod P) [0..<n],
                if n = 0 then GetPartitionedBufferIdx
                else GetPartitionedBufferIdx(toVertex \<mapsto> int n mod P))"
proof -
  have g: "is_go_int P" using assms by (simp add: is_go_int_def)
  show ?thesis
    using calls_fresh[OF assms(1) g, of n toVertex] go_int32_mod[OF assms]
    by simp
qed

theorem round_robin_sequence_witness:
  "(1::int) \<le> 3 \<and> (3::int) \<le> 2 ^ 31
   \<and> calls 3 ''reduce'' 3 GetPartitionedBufferIdx
       = Inr ([1, 2, 0], GetPartitionedBufferIdx(''reduce'' \<mapsto> 0))"
proof -
  have h1: "(1::int) \<le> 3" by simp
  have h2: "(3::int) \<le> 2 ^ 31" by simp
  have u: "[0..<3] = [0, 1, 2]" by (simp add: upt_rec)
  from round_robin_sequence [OF h1 h2, of 3 "''reduce''"] show ?thesis
    by (simp add: u)
qed

text \<open>
  The claim as stated, for every \<open>P \<ge> 1\<close>, fails where the index does not fit the \<open>int32\<close>
  result: with \<open>P = 2\<^sup>3\<^sup>1 + 1\<close> the call number \<open>2\<^sup>3\<^sup>1\<close> returns \<open>- 2\<^sup>3\<^sup>1\<close>, not
  \<open>2\<^sup>3\<^sup>1 mod P\<close>.
\<close>

theorem round_robin_sequence_counterexample:
  "fst (projr (calls 2147483648 ''reduce'' 2147483649 GetPartitionedBufferIdx)) ! 2147483647
     = - 2147483648
   \<and> fst (projr (calls 2147483648 ''reduce'' 2147483649 GetPartitionedBufferIdx)) ! 2147483647
     \<noteq> 2147483648 mod 2147483649"
proof -
  have p: "(1::int) \<le> 2147483649" "is_go_int 2147483649" by (simp_all add: is_go_int_def)
  have "fst (projr (calls 2147483648 ''reduce'' 2147483649 GetPartitionedBufferIdx)) ! 2147483647
          = go_int32 (int (Suc 2147483647) mod 2147483649)"
    by (simp only: calls_fresh[OF p] sum.sel fst_conv) simp
  also have "\<dots> = - 2147483648" by (simp add: go_int32_def)
  finally show ?thesis by simp
qed


text \<open>
  Claim C10, amended.  The fresh counter map holds no value that is negative or about to
  wrap, and every call with a positive partition count keeps it so.  On such a map a call
  with partition count \<open>P \<ge> 1\<close> does not divide by zero and leaves the counter of every
  other destination name unchanged; when moreover \<open>P \<le> 2\<^sup>3\<^sup>1\<close>, the returned index lies in
  \<open>[0, P)\<close>.
\<close>

theorem counter_index_in_range:
  assumes "counters_ok m" "1 \<le> P" "is_go_int P"
  shows "\<exists>i m'. getVertexPartitionIdx toVertex P m = Inr (i, m')
           \<and> (P \<le> 2 ^ 31 \<longrightarrow> 0 \<le> i \<and> i < P)
           \<and> (\<forall>k. k \<noteq> toVertex \<longrightarrow> m' k = m k)
           \<and> counters_ok m'"
proof -
  let ?v = "(map_read m toVertex + 1) mod P"
  have c: "getVertexPartitionIdx toVertex P m = Inr (go_int32 ?v, m(toVertex \<mapsto> ?v))"
    by (rule getVertexPartitionIdx_ok[OF assms(1,2)])
  have r: "P \<le> 2 ^ 31 \<longrightarrow> 0 \<le> go_int32 ?v \<and> go_int32 ?v < P"
  proof
    assume b: "P \<le> 2 ^ 31"
    have "go_int32 ?v = ?v" by (rule go_int32_mod[OF assms(2) b])
    moreover have "0 \<le> ?v" "?v < P" using assms(2) by simp_all
    ultimately show "0 \<le> go_int32 ?v \<and> go_int32 ?v < P" by simp
  qed
  have f: "\<forall>k. k \<noteq> toVertex \<longrightarrow> (m(toVertex \<mapsto> ?v)) k = m k" by simp
  have k: "counters_ok (m(toVertex \<mapsto> ?v))" by (rule counters_ok_step[OF assms])
  from c r f k show ?thesis by blast
qed

theorem counter_index_in_range_witness:
  "(1::int) \<le> 3 \<and> is_go_int 3 \<and> (3::int) \<le> 2 ^ 31
   \<and> getVertexPartitionIdx ''sink'' 3 [''sink'' \<mapsto> 2, ''even'' \<mapsto> 1]
       = Inr (0, [''sink'' \<mapsto> 0, ''even'' \<mapsto> 1])"
proof -
  have h1: "counters_ok [''sink'' \<mapsto> 2, ''even'' \<mapsto> 1]"
    by (simp add: counters_ok_def)
  have h2: "(1::int) \<le> 3" by simp
  have h3: "is_go_int 3" by (simp add: is_go_int_def)
  have e: "getVertexPartitionIdx ''sink'' 3 [''sink'' \<mapsto> 2, ''even'' \<mapsto> 1]
       = Inr (0, [''sink'' \<mapsto> 0, ''even'' \<mapsto> 1])"
    by (simp add: getVertexPartitionIdx_def map_read_def go_int_def go_int32_def
        signed_modulo_int_def fun_upd_twist)
  from counter_index_in_range [OF h1 h2 h3, of "''sink''"] e h2 h3 show ?thesis by simp
qed

text \<open>
  The claim as stated, for every partition count \<open>P \<ge> 1\<close>, fails for \<open>P = 2\<^sup>3\<^sup>1 + 1\<close>: after
  \<open>2\<^sup>3\<^sup>1 - 1\<close> calls the counter holds \<open>2\<^sup>3\<^sup>1 - 1\<close>, and the next call returns the index
  \<open>- 2\<^sup>3\<^sup>1\<close>, outside \<open>[0, P)\<close>.
\<close>

theorem counter_index_in_range_counterexample:
  "snd (projr (calls 2147483647 ''reduce'' 2147483649 GetPartitionedBufferIdx))
     = GetPartitionedBufferIdx(''reduce'' \<mapsto> 2147483647)
   \<and> fst (projr (getVertexPartitionIdx ''reduce'' 2147483649
            (GetPartitionedBufferIdx(''reduce'' \<mapsto> 2147483647))))
     = - 2147483648
   \<and> \<not> (0::int) \<le> - 2147483648"
proof -
  have p: "(1::int) \<le> 2147483649" "is_go_int 2147483649" by (simp_all add: is_go_int_def)
  have a: "snd (projr (calls 2147483647 ''reduce'' 2147483649 GetPartitionedBufferIdx))
     = GetPartitionedBufferIdx(''reduce'' \<mapsto> 2147483647)"
    by (simp only: calls_fresh[OF p] sum.sel snd_conv) simp
  have b: "fst (projr (getVertexPartitionIdx ''reduce'' 2147483649
            (GetPartitionedBufferIdx(''reduce'' \<mapsto> 2147483647))))
     = - 2147483648"
    by (simp add: getVertexPartitionIdx_def map_read_def go_int_def go_int32_def
        signed_modulo_int_def)
  from a b show ?thesis by simp
qed

lemmas start_defs =
  Start_def provisionBuffers_def provisionHandler_def teardown_def closePublisher_def
  closeStore_def deferredCloseConn_def sampleProcessor_def sampleResults_def
  secondForwarderFails_def


lemma sample_start:
  "Start sampleProcessor sampleResults =
     ([Call OpNewClientPool None,
       Call OpBuildProcessorManagers None,
       Call OpBuildToVertexWatermarkStores None,
       Call OpBuildJetStreamBufferIO None,
       Call OpMapUdfStreamEnabled None,
       Call OpNewMapClient None,
       Call OpMapWaitUntilReady None,
       Call (OpNewInterStepDataForward 0) None, WaitGroupAdd, GoForwarder 0,
       Call (OpNewInterStepDataForward 1) None, WaitGroupAdd, GoForwarder 1,
       Call OpMetricsServerStart None,
       WaitGroupWait,
       ProcessorManagerClose ''source'',
       PublisherClose ''reduce'' (Some (Failure ''publisher'')), LogPublisherCloseError,
       PublisherClose ''sink'' None,
       StoreClose ''reduce'' None,
       StoreClose ''sink'' (Some (Failure ''store'')),
       LogAllExited,
       MetricsShutdown,
       HandlerCloseConn None,
       ClientPoolCloseAll,
       ContextCancel],
      Return None)"
  by (simp add: start_defs)

lemma sample_start_failing:
  "Start sampleProcessor secondForwarderFails =
     ([Call OpNewClientPool None,
       Call OpBuildProcessorManagers None,
       Call OpBuildToVertexWatermarkStores None,
       Call OpBuildJetStreamBufferIO None,
       Call OpMapUdfStreamEnabled None,
       Call OpNewMapClient None,
       Call OpMapWaitUntilReady None,
       Call (OpNewInterStepDataForward 0) None, WaitGroupAdd, GoForwarder 0,
       Call (OpNewInterStepDataForward 1) (Some (Failure ''forwarder'')),
       HandlerCloseConn None,
       ClientPoolCloseAll,
       ContextCancel],
      Return (Some (Failure ''forwarder'')))"
  by (simp add: start_defs)

lemma Start_cases [case_names PoolFails BuffersFail HandlerFails ForwardersStop MetricsFails Runs]:
  obtains
    err where "jsclient_NewClientPool w = Some err"
      "Start u w = ([Call OpNewClientPool (Some err), ContextCancel],
           Return (Some (Errorf ''failed to create a new NATS client pool: %w'' err)))"
  | t1 err where "jsclient_NewClientPool w = None" "provisionBuffers u w = (t1, Inl err)"
      "Start u w = (Call OpNewClientPool None # t1 @ [ClientPoolCloseAll, ContextCancel], Return (Some err))"
  | t1 r t2 err where "jsclient_NewClientPool w = None" "provisionBuffers u w = (t1, Inr r)"
      "provisionHandler w = (t2, Inl err)"
      "Start u w = (Call OpNewClientPool None # t1 @ t2 @ [ClientPoolCloseAll, ContextCancel], Return (Some err))"
  | t1 r t2 s closeErr t3 out where "jsclient_NewClientPool w = None" "provisionBuffers u w = (t1, Inr r)"
      "provisionHandler w = (t2, Inr (s, closeErr))"
      "startForwarders w (readers r) 0 (OwnedBuffers u) = (t3, Some out)"
      "Start u w = (Call OpNewClientPool None # t1 @ t2 @ t3 @ deferredCloseConn closeErr
                       @ [ClientPoolCloseAll, ContextCancel], out)"
  | t1 r t2 s closeErr t3 err where "jsclient_NewClientPool w = None" "provisionBuffers u w = (t1, Inr r)"
      "provisionHandler w = (t2, Inr (s, closeErr))"
      "startForwarders w (readers r) 0 (OwnedBuffers u) = (t3, None)"
      "metricsServer_Start w = Some err"
      "Start u w = (Call OpNewClientPool None # t1 @ t2 @ t3
                                 @ [Call OpMetricsServerStart (Some err)]
                                 @ deferredCloseConn closeErr
                                 @ [ClientPoolCloseAll, ContextCancel],
                               Return (Some (Errorf ''failed to start metrics server, error: %w'' err)))"
  | t1 r t2 s closeErr t3 where "jsclient_NewClientPool w = None" "provisionBuffers u w = (t1, Inr r)"
      "provisionHandler w = (t2, Inr (s, closeErr))"
      "startForwarders w (readers r) 0 (OwnedBuffers u) = (t3, None)"
      "metricsServer_Start w = None"
      "Start u w = (Call OpNewClientPool None # t1 @ t2 @ t3
                                 @ [Call OpMetricsServerStart None, WaitGroupWait]
                                 @ teardown r
                                 @ [MetricsShutdown]
                                 @ deferredCloseConn closeErr
                                 @ [ClientPoolCloseAll, ContextCancel],
                               Return None)"
proof (cases "jsclient_NewClientPool w")
  case (Some err)
  then show ?thesis using that(1) by (simp add: Start_def)
next
  case None
  note pool = this
  obtain t1 x where pb: "provisionBuffers u w = (t1, x)" by (cases "provisionBuffers u w")
  show ?thesis
  proof (cases x)
    case (Inl err)
    then show ?thesis using that(2) pool pb by (simp add: Start_def)
  next
    case (Inr r)
    obtain t2 y where ph: "provisionHandler w = (t2, y)" by (cases "provisionHandler w")
    show ?thesis
    proof (cases y)
      case (Inl err)
      then show ?thesis using that(3) pool pb Inr ph by (simp add: Start_def)
    next
      case hr: (Inr sc)
      obtain s closeErr where sc: "sc = (s, closeErr)" by (cases sc)
      obtain t3 z where sf: "startForwarders w (readers r) 0 (OwnedBuffers u) = (t3, z)"
        by (cases "startForwarders w (readers r) 0 (OwnedBuffers u)")
      show ?thesis
      proof (cases z)
        case (Some out)
        then show ?thesis using that(4) pool pb Inr ph hr sc sf by (simp add: Start_def)
      next
        case None
        note loop = this
        show ?thesis
        proof (cases "metricsServer_Start w")
          case (Some err)
          then show ?thesis using that(5) pool pb Inr ph hr sc sf loop by (simp add: Start_def)
        next
          case None
          then show ?thesis using that(6) pool pb Inr ph hr sc sf loop by (simp add: Start_def)
        qed
      qed
    qed
  qed
qed


lemma startedForwarders_append:
  "startedForwarders (xs @ ys) = startedForwarders xs @ startedForwarders ys"
  by (induction xs rule: startedForwarders.induct) simp_all

lemma failedCalls_append: "failedCalls (xs @ ys) = failedCalls xs @ failedCalls ys"
  by (induction xs rule: failedCalls.induct) simp_all

lemma provisionBuffers_Inr:
  assumes "provisionBuffers u w = (t, Inr r)"
  shows "failedCalls t = [] \<and> startedForwarders t = [] \<and> filter isClose t = []
         \<and> WaitGroupWait \<notin> set t
         \<and> filter (\<lambda>e. e = LogPublisherCloseError) t = []"
  using assms
  by (auto simp: provisionBuffers_def split: ISBSvcType.splits sum.splits if_splits)

lemma provisionBuffers_Inl:
  assumes "provisionBuffers u w = (t, Inl e)"
  shows "startedForwarders t = [] \<and> WaitGroupWait \<notin> set t
         \<and> OpMetricsServerStart \<notin> set (failedCalls t)
         \<and> (\<forall>i. OpNewInterStepDataForward i \<notin> set (failedCalls t))"
  using assms
  by (auto simp: provisionBuffers_def split: ISBSvcType.splits sum.splits if_splits)

lemma provisionHandler_Inr:
  assumes "provisionHandler w = (t, Inr x)"
  shows "failedCalls t = [] \<and> startedForwarders t = [] \<and> filter isClose t = []
         \<and> WaitGroupWait \<notin> set t
         \<and> filter (\<lambda>e. e = LogPublisherCloseError) t = []"
  using assms
  by (auto simp: provisionHandler_def split: sum.splits if_splits option.splits)

lemma provisionHandler_Inl:
  assumes "provisionHandler w = (t, Inl e)"
  shows "startedForwarders t = [] \<and> WaitGroupWait \<notin> set t
         \<and> OpMetricsServerStart \<notin> set (failedCalls t)
         \<and> (\<forall>i. OpNewInterStepDataForward i \<notin> set (failedCalls t))"
  using assms
  by (auto simp: provisionHandler_def split: sum.splits if_splits option.splits)

lemma deferredCloseConn_facts:
  "failedCalls (deferredCloseConn e) = [] \<and> startedForwarders (deferredCloseConn e) = []
   \<and> filter isClose (deferredCloseConn e) = [] \<and> WaitGroupWait \<notin> set (deferredCloseConn e)
   \<and> filter (\<lambda>x. x = LogPublisherCloseError) (deferredCloseConn e) = []"
  by (simp add: deferredCloseConn_def)

lemma closePublisher_facts:
  "failedCalls (concat (map closePublisher ps)) = []
   \<and> startedForwarders (concat (map closePublisher ps)) = []
   \<and> WaitGroupWait \<notin> set (concat (map closePublisher ps))
   \<and> filter isClose (concat (map closePublisher ps))
       = map (\<lambda>p. PublisherClose (fst p) (snd p)) ps
   \<and> length (filter (\<lambda>e. e = LogPublisherCloseError) (concat (map closePublisher ps)))
       = length (filter (\<lambda>p. snd p \<noteq> None) ps)"
  by (induction ps) (auto simp: closePublisher_def)

lemma closeStore_facts:
  "failedCalls (map closeStore ss) = [] \<and> startedForwarders (map closeStore ss) = []
   \<and> WaitGroupWait \<notin> set (map closeStore ss)
   \<and> filter isClose (map closeStore ss) = map (\<lambda>s. StoreClose (fst s) (snd s)) ss
   \<and> filter (\<lambda>e. e = LogPublisherCloseError) (map closeStore ss) = []"
  by (induction ss) (auto simp: closeStore_def)

lemma closeManagers_facts:
  "failedCalls (map ProcessorManagerClose pms) = []
   \<and> startedForwarders (map ProcessorManagerClose pms) = []
   \<and> WaitGroupWait \<notin> set (map ProcessorManagerClose pms)
   \<and> filter isClose (map ProcessorManagerClose pms) = map ProcessorManagerClose pms
   \<and> filter (\<lambda>e. e = LogPublisherCloseError) (map ProcessorManagerClose pms) = []"
  by (induction pms) auto

lemma teardown_facts:
  "failedCalls (teardown r) = [] \<and> startedForwarders (teardown r) = []
   \<and> WaitGroupWait \<notin> set (teardown r)
   \<and> filter isClose (teardown r)
       = map ProcessorManagerClose (processorManagers r)
         @ map (\<lambda>p. PublisherClose (fst p) (snd p)) (publishWatermark r)
         @ map (\<lambda>s. StoreClose (fst s) (snd s)) (wmStores r)
   \<and> length (filter (\<lambda>e. e = LogPublisherCloseError) (teardown r))
       = length (filter (\<lambda>p. snd p \<noteq> None) (publishWatermark r))"
  using closePublisher_facts[of "publishWatermark r"] closeStore_facts[of "wmStores r"]
    closeManagers_facts[of "processorManagers r"]
  by (simp add: teardown_def failedCalls_append startedForwarders_append)

lemma startForwarders_None:
  "startForwarders w rs i bufs = (t, None) \<Longrightarrow>
     failedCalls t = [] \<and> startedForwarders t = [i..<i + length bufs]
     \<and> filter isClose t = [] \<and> WaitGroupWait \<notin> set t
     \<and> filter (\<lambda>e. e = LogPublisherCloseError) t = []"
proof (induction bufs arbitrary: i t)
  case Nil
  then show ?case by simp
next
  case (Cons b bufs)
  from Cons.prems obtain t' where
    t': "startForwarders w rs (Suc i) bufs = (t', None)"
    and t: "t = [Call (OpNewInterStepDataForward i) None, WaitGroupAdd, GoForwarder i] @ t'"
    by (auto split: if_splits option.splits prod.splits)
  from Cons.IH[OF t'] t show ?case by (simp add: upt_rec)
qed

lemma startForwarders_Some:
  "startForwarders w rs i bufs = (t, Some out) \<Longrightarrow>
     filter isClose t = [] \<and> WaitGroupWait \<notin> set t
     \<and> OpMetricsServerStart \<notin> set (failedCalls t)
     \<and> (\<exists>k. startedForwarders t = [i..<i + k]
            \<and> (out = Panic IndexOutOfRange \<and> failedCalls t = []
                \<or> (\<exists>err. out = Return (Some err)
                       \<and> failedCalls t = [OpNewInterStepDataForward (i + k)])))"
proof (induction bufs arbitrary: i t)
  case Nil
  then show ?case by simp
next
  case (Cons b bufs)
  show ?case
  proof (cases "i \<ge> length rs")
    case True
    with Cons.prems have "t = []" "out = Panic IndexOutOfRange" by auto
    then show ?thesis by (auto intro: exI[of _ 0])
  next
    case inr: False
    show ?thesis
    proof (cases "forward_NewInterStepDataForward w i")
      case (Some err)
      with Cons.prems inr have
        "t = [Call (OpNewInterStepDataForward i) (Some err)]" "out = Return (Some err)"
        by auto
      then show ?thesis by (auto intro: exI[of _ 0])
    next
      case None
      with Cons.prems inr obtain t' where
        t': "startForwarders w rs (Suc i) bufs = (t', Some out)"
        and t: "t = [Call (OpNewInterStepDataForward i) None, WaitGroupAdd, GoForwarder i] @ t'"
        by (auto split: prod.splits)
      from Cons.IH[OF t'] obtain k where
        c: "filter isClose t' = []" "WaitGroupWait \<notin> set t'"
           "OpMetricsServerStart \<notin> set (failedCalls t')"
        and k: "startedForwarders t' = [Suc i..<Suc i + k]"
           "out = Panic IndexOutOfRange \<and> failedCalls t' = []
                \<or> (\<exists>err. out = Return (Some err)
                       \<and> failedCalls t' = [OpNewInterStepDataForward (Suc i + k)])"
        by blast
      have "startedForwarders t = [i..<i + Suc k]"
        using t k(1) by (simp add: upt_rec)
      moreover have "out = Panic IndexOutOfRange \<and> failedCalls t = []
                \<or> (\<exists>err. out = Return (Some err)
                       \<and> failedCalls t = [OpNewInterStepDataForward (i + Suc k)])"
        using t k(2) by auto
      ultimately show ?thesis using c t by (auto intro: exI[of _ "Suc k"])
    qed
  qed
qed


lemma provisionBuffers_Other:
  "ISBSvc u = ISBSvcTypeOther t \<Longrightarrow> provisionBuffers u w = (t1, Inr r) \<Longrightarrow> False"
  by (simp add: provisionBuffers_def)

lemma not_forwarder_case:
  "(\<forall>i. op \<noteq> OpNewInterStepDataForward i) \<Longrightarrow>
     (case op of OpNewInterStepDataForward index \<Rightarrow> [0..<index] | _ \<Rightarrow> []) = []"
  by (cases op) simp_all

section \<open>Failures while provisioning\<close>

text \<open>
  Claim C5, amended.  When a collaborator call of the provisioning phase fails (the NATS
  client pool, the buffers and watermark components of the backend, the streaming flag,
  the handler client, the readiness check) or the backend type is not recognised,
  \<open>Start\<close> returns a non-nil error and no partition goroutine has been started.  When the
  forwarder of partition \<open>index\<close> cannot be built, \<open>Start\<close> returns a non-nil error after
  the goroutines of the partitions \<open>0, ..., index - 1\<close> have been started: none for the
  first partition.
\<close>

theorem provisioning_failure_returns_error:
  "(op \<in> set (failedCalls (fst (Start u w))) \<and> op \<noteq> OpMetricsServerStart \<longrightarrow>
      (\<exists>e. snd (Start u w) = Return (Some e))
      \<and> startedForwarders (fst (Start u w))
          = (case op of OpNewInterStepDataForward index \<Rightarrow> [0..<index] | _ \<Rightarrow> []))
   \<and> (ISBSvc u = ISBSvcTypeOther t \<longrightarrow>
      (\<exists>e. snd (Start u w) = Return (Some e)) \<and> startedForwarders (fst (Start u w)) = [])"
proof (cases rule: Start_cases[of w u])
  case (PoolFails err)
  then show ?thesis by auto
next
  case (BuffersFail t1 err)
  from provisionBuffers_Inl[OF BuffersFail(2)] have
    f: "startedForwarders t1 = []" "\<forall>i. OpNewInterStepDataForward i \<notin> set (failedCalls t1)"
    by auto
  have "op \<in> set (failedCalls t1) \<Longrightarrow>
          (case op of OpNewInterStepDataForward index \<Rightarrow> [0..<index] | _ \<Rightarrow> []) = []"
    using f(2) by (intro not_forwarder_case) auto
  then show ?thesis using BuffersFail(3) f(1)
    by (auto simp: failedCalls_append startedForwarders_append)
next
  case (HandlerFails t1 r t2 err)
  from provisionBuffers_Inr[OF HandlerFails(2)] have
    b: "failedCalls t1 = []" "startedForwarders t1 = []" by auto
  from provisionHandler_Inl[OF HandlerFails(3)] have
    f: "startedForwarders t2 = []" "\<forall>i. OpNewInterStepDataForward i \<notin> set (failedCalls t2)"
    by auto
  have "op \<in> set (failedCalls t2) \<Longrightarrow>
          (case op of OpNewInterStepDataForward index \<Rightarrow> [0..<index] | _ \<Rightarrow> []) = []"
    using f(2) by (intro not_forwarder_case) auto
  then show ?thesis using HandlerFails(4) b f(1)
    by (auto simp: failedCalls_append startedForwarders_append)
next
  case (ForwardersStop t1 r t2 s closeErr t3 out)
  from provisionBuffers_Inr[OF ForwardersStop(2)] have
    b: "failedCalls t1 = []" "startedForwarders t1 = []" by auto
  from provisionHandler_Inr[OF ForwardersStop(3)] have
    h: "failedCalls t2 = []" "startedForwarders t2 = []" by auto
  from startForwarders_Some[OF ForwardersStop(4)] obtain k where
    k: "startedForwarders t3 = [0..<k]"
       "out = Panic IndexOutOfRange \<and> failedCalls t3 = []
          \<or> (\<exists>err. out = Return (Some err) \<and> failedCalls t3 = [OpNewInterStepDataForward k])"
    by auto
  have tr: "failedCalls (fst (Start u w)) = failedCalls t3"
       "startedForwarders (fst (Start u w)) = startedForwarders t3"
       "snd (Start u w) = out"
    using ForwardersStop(5) b h deferredCloseConn_facts[of closeErr]
    by (simp_all add: failedCalls_append startedForwarders_append)
  have other: "ISBSvc u \<noteq> ISBSvcTypeOther t"
    using provisionBuffers_Other[of u t w t1 r] ForwardersStop(2) by blast
  show ?thesis using k other unfolding tr by auto
next
  case (MetricsFails t1 r t2 s closeErr t3 err)
  from provisionBuffers_Inr[OF MetricsFails(2)] have b: "failedCalls t1 = []" by auto
  from provisionHandler_Inr[OF MetricsFails(3)] have h: "failedCalls t2 = []" by auto
  from startForwarders_None[OF MetricsFails(4)] have l: "failedCalls t3 = []" by auto
  have tr: "failedCalls (fst (Start u w)) = [OpMetricsServerStart]"
    using MetricsFails(6) b h l deferredCloseConn_facts[of closeErr]
    by (simp add: failedCalls_append)
  have other: "ISBSvc u \<noteq> ISBSvcTypeOther t"
    using provisionBuffers_Other[of u t w t1 r] MetricsFails(2) by blast
  show ?thesis using other unfolding tr by auto
next
  case (Runs t1 r t2 s closeErr t3)
  from provisionBuffers_Inr[OF Runs(2)] have b: "failedCalls t1 = []" by auto
  from provisionHandler_Inr[OF Runs(3)] have h: "failedCalls t2 = []" by auto
  from startForwarders_None[OF Runs(4)] have l: "failedCalls t3 = []" by auto
  have tr: "failedCalls (fst (Start u w)) = []"
    using Runs(6) b h l deferredCloseConn_facts[of closeErr] teardown_facts[of r]
    by (simp add: failedCalls_append)
  have other: "ISBSvc u \<noteq> ISBSvcTypeOther t"
    using provisionBuffers_Other[of u t w t1 r] Runs(2) by blast
  show ?thesis using other unfolding tr by auto
qed


theorem provisioning_failure_returns_error_witness:
  "OpMapWaitUntilReady
     \<in> set (failedCalls (fst (Start sampleProcessor
           (sampleResults\<lparr>mapHandler_WaitUntilReady := Some (Failure ''not ready'')\<rparr>))))
   \<and> snd (Start sampleProcessor
           (sampleResults\<lparr>mapHandler_WaitUntilReady := Some (Failure ''not ready'')\<rparr>))
       = Return (Some (Errorf ''failed on map UDF readiness check, %w'' (Failure ''not ready'')))
   \<and> startedForwarders (fst (Start sampleProcessor
           (sampleResults\<lparr>mapHandler_WaitUntilReady := Some (Failure ''not ready'')\<rparr>))) = []
   \<and> ISBSvc (sampleProcessor\<lparr>ISBSvc := ISBSvcTypeOther ''kafka''\<rparr>) = ISBSvcTypeOther ''kafka''
   \<and> snd (Start (sampleProcessor\<lparr>ISBSvc := ISBSvcTypeOther ''kafka''\<rparr>) sampleResults)
       = Return (Some (ErrorfQuoted ''unrecognized isbsvc type %q'' ''kafka''))
   \<and> startedForwarders
         (fst (Start (sampleProcessor\<lparr>ISBSvc := ISBSvcTypeOther ''kafka''\<rparr>) sampleResults)) = []"
proof -
  let ?w = "sampleResults\<lparr>mapHandler_WaitUntilReady := Some (Failure ''not ready'')\<rparr>"
  let ?u = "sampleProcessor\<lparr>ISBSvc := ISBSvcTypeOther ''kafka''\<rparr>"
  have h1: "OpMapWaitUntilReady \<in> set (failedCalls (fst (Start sampleProcessor ?w)))
            \<and> OpMapWaitUntilReady \<noteq> OpMetricsServerStart"
    by (simp add: start_defs)
  have h2: "ISBSvc ?u = ISBSvcTypeOther ''kafka''" by simp
  have e1: "snd (Start sampleProcessor ?w)
       = Return (Some (Errorf ''failed on map UDF readiness check, %w'' (Failure ''not ready'')))"
    by (simp add: start_defs)
  have e2: "snd (Start ?u sampleResults)
       = Return (Some (ErrorfQuoted ''unrecognized isbsvc type %q'' ''kafka''))"
    by (simp add: start_defs)
  from provisioning_failure_returns_error [of OpMapWaitUntilReady sampleProcessor ?w "''kafka''"]
    h1
  have a: "startedForwarders (fst (Start sampleProcessor ?w)) = []" by simp
  from provisioning_failure_returns_error [of OpMapWaitUntilReady ?u sampleResults "''kafka''"]
    h2
  have b: "startedForwarders (fst (Start ?u sampleResults)) = []" by simp
  from h1 h2 e1 e2 a b show ?thesis by simp
qed

text \<open>
  The claim as stated fails for the forwarder of a partition after the first: with two
  input partitions and a forwarder that cannot be built for the second, \<open>Start\<close> returns
  the error after the goroutine of the first partition has been started.
\<close>

theorem provisioning_failure_returns_error_counterexample:
  "Start sampleProcessor secondForwarderFails =
     ([Call OpNewClientPool None,
       Call OpBuildProcessorManagers None,
       Call OpBuildToVertexWatermarkStores None,
       Call OpBuildJetStreamBufferIO None,
       Call OpMapUdfStreamEnabled None,
       Call OpNewMapClient None,
       Call OpMapWaitUntilReady None,
       Call (OpNewInterStepDataForward 0) None, WaitGroupAdd, GoForwarder 0,
       Call (OpNewInterStepDataForward 1) (Some (Failure ''forwarder'')),
       HandlerCloseConn None,
       ClientPoolCloseAll,
       ContextCancel],
      Return (Some (Failure ''forwarder'')))
   \<and> startedForwarders (fst (Start sampleProcessor secondForwarderFails)) = [0]"
  by (simp add: sample_start_failing)







































section \<open>Shutdown\<close>





text \<open>
  Claim C7.  In a run of \<open>Start\<close> in which the close of a watermark publisher or of a
  watermark store returns an error, every processor manager, every publisher and every
  store is still closed, in that order, each failed publisher close is logged, and
  \<open>Start\<close> returns nil.
\<close>

theorem close_errors_not_fatal:
  assumes "PublisherClose name (Some err) \<in> set (fst (Start u w))
           \<or> StoreClose name (Some err) \<in> set (fst (Start u w))"
  shows "snd (Start u w) = Return None
       \<and> (\<exists>t1 r.
             provisionBuffers u w = (t1, Inr r)
           \<and> filter isClose (fst (Start u w))
               = map ProcessorManagerClose (processorManagers r)
                 @ map (\<lambda>p. PublisherClose (fst p) (snd p)) (publishWatermark r)
                 @ map (\<lambda>s. StoreClose (fst s) (snd s)) (wmStores r)
           \<and> length (filter (\<lambda>e. e = LogPublisherCloseError) (fst (Start u w)))
               = length (filter (\<lambda>p. snd p \<noteq> None) (publishWatermark r)))"
proof -
  from assms obtain e where e: "e \<in> set (fst (Start u w))" "isClose e" by auto
  then have ne: "filter isClose (fst (Start u w)) \<noteq> []"
    by (auto simp: filter_empty_conv)
  show ?thesis
  proof (cases rule: Start_cases[of w u])
    case (PoolFails err)
    then show ?thesis using ne by simp
  next
    case (BuffersFail t1 err')
    have "filter isClose t1 = []"
      using BuffersFail(2)
      by (auto simp: provisionBuffers_def split: ISBSvcType.splits sum.splits if_splits)
    then show ?thesis using ne BuffersFail(3) by simp
  next
    case (HandlerFails t1 r t2 err')
    have "filter isClose t2 = []"
      using HandlerFails(3)
      by (auto simp: provisionHandler_def split: sum.splits if_splits option.splits)
    then show ?thesis using ne HandlerFails(4) provisionBuffers_Inr[OF HandlerFails(2)] by simp
  next
    case (ForwardersStop t1 r t2 s closeErr t3 out)
    then show ?thesis
      using ne provisionBuffers_Inr[OF ForwardersStop(2)]
        provisionHandler_Inr[OF ForwardersStop(3)] startForwarders_Some[OF ForwardersStop(4)]
        deferredCloseConn_facts[of closeErr]
      by simp
  next
    case (MetricsFails t1 r t2 s closeErr t3 err')
    then show ?thesis
      using ne provisionBuffers_Inr[OF MetricsFails(2)]
        provisionHandler_Inr[OF MetricsFails(3)] startForwarders_None[OF MetricsFails(4)]
        deferredCloseConn_facts[of closeErr]
      by simp
  next
    case (Runs t1 r t2 s closeErr t3)
    note b = provisionBuffers_Inr[OF Runs(2)]
    note h = provisionHandler_Inr[OF Runs(3)]
    note l = startForwarders_None[OF Runs(4)]
    note d = deferredCloseConn_facts[of closeErr]
    note t = teardown_facts[of r]
    have c: "filter isClose (fst (Start u w))
               = map ProcessorManagerClose (processorManagers r)
                 @ map (\<lambda>p. PublisherClose (fst p) (snd p)) (publishWatermark r)
                 @ map (\<lambda>s. StoreClose (fst s) (snd s)) (wmStores r)"
      using Runs(6) b h l d t by simp
    have g: "length (filter (\<lambda>e. e = LogPublisherCloseError) (fst (Start u w)))
               = length (filter (\<lambda>p. snd p \<noteq> None) (publishWatermark r))"
      using Runs(6) b h l d t by simp
    have "snd (Start u w) = Return None" using Runs(6) by simp
    with Runs(2) c g show ?thesis by blast
  qed
qed

theorem close_errors_not_fatal_witness:
  "PublisherClose ''reduce'' (Some (Failure ''publisher''))
     \<in> set (fst (Start sampleProcessor sampleResults))
   \<and> StoreClose ''sink'' (Some (Failure ''store''))
     \<in> set (fst (Start sampleProcessor sampleResults))
   \<and> snd (Start sampleProcessor sampleResults) = Return None
   \<and> drop 15 (fst (Start sampleProcessor sampleResults))
       = [ProcessorManagerClose ''source'',
          PublisherClose ''reduce'' (Some (Failure ''publisher'')), LogPublisherCloseError,
          PublisherClose ''sink'' None,
          StoreClose ''reduce'' None,
          StoreClose ''sink'' (Some (Failure ''store'')),
          LogAllExited, MetricsShutdown, HandlerCloseConn None,
          ClientPoolCloseAll, ContextCancel]"
proof -
  have h: "PublisherClose ''reduce'' (Some (Failure ''publisher''))
             \<in> set (fst (Start sampleProcessor sampleResults))
           \<or> StoreClose ''reduce'' (Some (Failure ''publisher''))
             \<in> set (fst (Start sampleProcessor sampleResults))"
    by (simp add: sample_start)
  from close_errors_not_fatal [OF h]
  have r: "snd (Start sampleProcessor sampleResults) = Return None" by simp
  from r show ?thesis by (simp add: sample_start)
qed

end
